theory Spec2Isabelle
  imports Main "HOL-Library.AList" "HOL-Library.List_Lexorder" "HOL-Library.Char_ord"
begin

section \<open>The message board of server.js\<close>

subsection \<open>Rows, errors and the state\<close>

text \<open>
  The two tables of \<^verbatim>\<open>initializeDatabase\<close>. Every column is \<^verbatim>\<open>TEXT NOT NULL\<close>;
  the GraphQL schema passes non-null strings only.
\<close>

record user =
  user_id :: string
  user_name :: string
  user_email :: string
  user_creationDate :: string

record message =
  msg_id :: string
  msg_userId :: string
  msg_body :: string
  msg_creationDate :: string

text \<open>
  A resolver fails by \<^verbatim>\<open>throw new Error(text)\<close>; the text is all that tells the
  failures apart. \<open>SqliteConstraint\<close> is the rejection of \<^verbatim>\<open>db.run\<close> when an
  \<^verbatim>\<open>INSERT\<close> violates \<^verbatim>\<open>PRIMARY KEY\<close> or \<^verbatim>\<open>UNIQUE\<close>; it names the column.
\<close>

datatype error = Error string | SqliteConstraint string

text \<open>
  Mutations that were carried out, oldest first: a row written by \<^verbatim>\<open>db.run\<close>, or a
  \<^verbatim>\<open>rateLimitStore.set\<close>. The log is bookkeeping of the model; the program keeps none.
\<close>

datatype effect =
    InsertUser user
  | InsertMessage message
  | LimiterSet string "int list"

text \<open>
  A table is the list of its rows in insertion order, which is the order in which SQLite
  scans a table that has seen no deletion. \<^verbatim>\<open>rateLimitStore\<close> is a JavaScript \<^verbatim>\<open>Map\<close>:
  an association list in which \<^verbatim>\<open>set\<close> replaces the value of a known key in place and
  appends a new key.
\<close>

record state =
  users :: "user list"
  messages :: "message list"
  rateLimitStore :: "(string \<times> int list) list"
  effects :: "effect list"

definition initial_state :: state where
  "initial_state = \<lparr>users = [], messages = [], rateLimitStore = [], effects = []\<rparr>"

text \<open>
  What a resolver reads from outside: \<^verbatim>\<open>Date.now()\<close> in milliseconds, the string of
  \<^verbatim>\<open>uuidv4()\<close> and the string of \<^verbatim>\<open>new Date().toISOString()\<close>.
\<close>

record env =
  env_now :: int
  env_uuid :: string
  env_isoDate :: string

subsection \<open>Store and limiter primitives\<close>

definition get_user_by_id :: "string \<Rightarrow> state \<Rightarrow> user option" where
  \<comment> \<open>\<^verbatim>\<open>db.get('SELECT id FROM users WHERE id = ?', userId)\<close>\<close>
  "get_user_by_id userId s = find (\<lambda>u. user_id u = userId) (users s)"

definition get_user_by_email :: "string \<Rightarrow> state \<Rightarrow> user option" where
  \<comment> \<open>\<^verbatim>\<open>db.get('SELECT id FROM users WHERE email = ?', email)\<close>\<close>
  "get_user_by_email email s = find (\<lambda>u. user_email u = email) (users s)"

definition insert_user :: "user \<Rightarrow> state \<Rightarrow> error + state" where
  \<comment> \<open>with both constraints violated SQLite reports the one on \<^verbatim>\<open>email\<close>\<close>
  "insert_user u s =
     (if user_email u \<in> set (map user_email (users s))
        then Inl (SqliteConstraint ''users.email'')
      else if user_id u \<in> set (map user_id (users s)) then Inl (SqliteConstraint ''users.id'')
      else Inr (s\<lparr>users := users s @ [u], effects := effects s @ [InsertUser u]\<rparr>))"

definition insert_message :: "message \<Rightarrow> state \<Rightarrow> error + state" where
  "insert_message m s =
     (if msg_id m \<in> set (map msg_id (messages s)) then Inl (SqliteConstraint ''messages.id'')
      else Inr (s\<lparr>messages := messages s @ [m], effects := effects s @ [InsertMessage m]\<rparr>))"

definition messages_of_user :: "string \<Rightarrow> state \<Rightarrow> message list" where
  \<comment> \<open>\<^verbatim>\<open>db.all('SELECT * FROM messages WHERE userId = ?', userId)\<close>\<close>
  "messages_of_user userId s = filter (\<lambda>m. msg_userId m = userId) (messages s)"

definition messages_of_user_by_date :: "string \<Rightarrow> state \<Rightarrow> message list" where
  \<comment> \<open>the same with \<^verbatim>\<open>ORDER BY creationDate ASC\<close>: bytewise order of the text, rows with
      equal text kept in scan order\<close>
  "messages_of_user_by_date userId s = sort_key msg_creationDate (messages_of_user userId s)"

definition userTimestamps :: "string \<Rightarrow> state \<Rightarrow> int list" where
  \<comment> \<open>\<^verbatim>\<open>rateLimitStore.get(userId) || []\<close>; a stored array is truthy also when empty\<close>
  "userTimestamps userId s =
     (case map_of (rateLimitStore s) userId of None \<Rightarrow> [] | Some ts \<Rightarrow> ts)"

definition rateLimitStore_set :: "string \<Rightarrow> int list \<Rightarrow> state \<Rightarrow> state" where
  "rateLimitStore_set userId ts s =
     s\<lparr>rateLimitStore := AList.update userId ts (rateLimitStore s),
       effects := effects s @ [LimiterSet userId ts]\<rparr>"

subsection \<open>Queries\<close>

definition listUsers :: "state \<Rightarrow> user list" where
  "listUsers s = users s"

definition listAllMessages :: "state \<Rightarrow> message list" where
  "listAllMessages s = sort_key msg_creationDate (messages s)"

definition listMessagesForUser :: "string \<Rightarrow> state \<Rightarrow> error + message list" where
  "listMessagesForUser userId s =
     (case get_user_by_id userId s of
        None \<Rightarrow> Inl (Error ''User not found.'')
      | Some user \<Rightarrow> Inr (messages_of_user userId s))"

subsection \<open>Mutations\<close>

definition newUser :: "string \<Rightarrow> string \<Rightarrow> env \<Rightarrow> user" where
  "newUser name email e =
     \<lparr>user_id = env_uuid e, user_name = name, user_email = email,
      user_creationDate = env_isoDate e\<rparr>"

definition newMessage :: "string \<Rightarrow> string \<Rightarrow> env \<Rightarrow> message" where
  "newMessage userId messageBody e =
     \<lparr>msg_id = env_uuid e, msg_userId = userId, msg_body = messageBody,
      msg_creationDate = env_isoDate e\<rparr>"

definition createUser :: "string \<Rightarrow> string \<Rightarrow> env \<Rightarrow> state \<Rightarrow> (error + user) \<times> state" where
  "createUser name email e s =
     (case get_user_by_email email s of
        Some existingUser \<Rightarrow> (Inl (Error ''A user with this email already exists.''), s)
      | None \<Rightarrow>
          (case insert_user (newUser name email e) s of
             Inl err \<Rightarrow> (Inl err, s)
           | Inr s1 \<Rightarrow> (Inr (newUser name email e), s1)))"

definition postMessage :: "string \<Rightarrow> string \<Rightarrow> env \<Rightarrow> state \<Rightarrow> (error + message) \<times> state" where
  "postMessage userId messageBody e s =
     (case get_user_by_id userId s of
        None \<Rightarrow> (Inl (Error ''User not found. Cannot post message.''), s)
      | Some user \<Rightarrow>
          let now = env_now e;
              oneHourAgo = now - (60 * 60 * 1000);
              recentTimestamps = filter (\<lambda>ts. ts > oneHourAgo) (userTimestamps userId s)
          in if length recentTimestamps \<ge> 10
             then (Inl (Error ''Rate limit exceeded. You can post a maximum of 10 messages per hour.''), s)
             else
               (case insert_message (newMessage userId messageBody e) s of
                  Inl err \<Rightarrow> (Inl err, s)
                | Inr s1 \<Rightarrow>
                    (Inr (newMessage userId messageBody e),
                     rateLimitStore_set userId (recentTimestamps @ [now]) s1)))"

subsection \<open>Field resolvers of Message\<close>

fun findIndexFrom :: "('a \<Rightarrow> bool) \<Rightarrow> 'a list \<Rightarrow> int \<Rightarrow> int" where
  "findIndexFrom p [] i = - 1"
| "findIndexFrom p (x # xs) i = (if p x then i else findIndexFrom p xs (i + 1))"

definition findIndex :: "('a \<Rightarrow> bool) \<Rightarrow> 'a list \<Rightarrow> int" where
  \<comment> \<open>\<^verbatim>\<open>Array.prototype.findIndex\<close>: the first index that satisfies, or \<open>-1\<close>\<close>
  "findIndex p xs = findIndexFrom p xs 0"

definition js_index :: "'a list \<Rightarrow> int \<Rightarrow> 'a option" where
  \<comment> \<open>\<^verbatim>\<open>xs[i]\<close>; out of range is \<^verbatim>\<open>undefined\<close>, which the field resolves to null\<close>
  "js_index xs i = (if 0 \<le> i \<and> i < int (length xs) then Some (xs ! nat i) else None)"

definition previousPostedMessage :: "message \<Rightarrow> state \<Rightarrow> message option" where
  "previousPostedMessage m s =
     (let userMessages = messages_of_user_by_date (msg_userId m) s;
          currentIndex = findIndex (\<lambda>msg. msg_id msg = msg_id m) userMessages
      in if currentIndex > 0 then js_index userMessages (currentIndex - 1) else None)"

definition nextPostedMessage :: "message \<Rightarrow> state \<Rightarrow> message option" where
  "nextPostedMessage m s =
     (let userMessages = messages_of_user_by_date (msg_userId m) s;
          currentIndex = findIndex (\<lambda>msg. msg_id msg = msg_id m) userMessages
      in if currentIndex < int (length userMessages) - 1
         then js_index userMessages (currentIndex + 1) else None)"

subsection \<open>Sequences of requests\<close>

text \<open>Requests are served one after the other, each on the state the last one left.\<close>

fun createUsers :: "(string \<times> string \<times> env) list \<Rightarrow> state \<Rightarrow> (error + user) list \<times> state" where
  "createUsers [] s = ([], s)"
| "createUsers ((name, email, e) # cs) s =
     (case createUser name email e s of (r, s1) \<Rightarrow>
        (case createUsers cs s1 of (rs, s2) \<Rightarrow> (r # rs, s2)))"

fun postMessages :: "string \<Rightarrow> (string \<times> env) list \<Rightarrow> state \<Rightarrow> (error + message) list \<times> state" where
  "postMessages userId [] s = ([], s)"
| "postMessages userId ((messageBody, e) # cs) s =
     (case postMessage userId messageBody e s of (r, s1) \<Rightarrow>
        (case postMessages userId cs s1 of (rs, s2) \<Rightarrow> (r # rs, s2)))"

datatype request =
    CreateUser string string env
  | PostMessage string string env

fun serve :: "request \<Rightarrow> state \<Rightarrow> state" where
  "serve (CreateUser name email e) s = snd (createUser name email e s)"
| "serve (PostMessage userId messageBody e) s = snd (postMessage userId messageBody e s)"

definition serve_all :: "request list \<Rightarrow> state \<Rightarrow> state" where
  "serve_all rs s = fold serve rs s"

subsection \<open>Notions used by the properties\<close>

definition created_users :: "(string \<times> string \<times> env) list \<Rightarrow> user list" where
  \<comment> \<open>the rows that a sequence of successful sign-ups writes\<close>
  "created_users cs = map (\<lambda>(name, email, e). newUser name email e) cs"

definition posted_messages :: "string \<Rightarrow> (string \<times> env) list \<Rightarrow> message list" where
  \<comment> \<open>the rows that a sequence of successful posts of one user writes\<close>
  "posted_messages userId cs = map (\<lambda>(messageBody, e). newMessage userId messageBody e) cs"

definition window_filtered :: "string \<Rightarrow> int \<Rightarrow> state \<Rightarrow> int list" where
  \<comment> \<open>the stored timestamps of a user that are later than one hour before \<open>now\<close>\<close>
  "window_filtered userId now s = filter (\<lambda>ts. now - 3600000 < ts) (userTimestamps userId s)"

definition rateLimitStore_bounded :: "state \<Rightarrow> bool" where
  "rateLimitStore_bounded s = list_all (\<lambda>(userId, ts). length ts \<le> 10) (rateLimitStore s)"

fun is_store_write :: "effect \<Rightarrow> bool" where
  "is_store_write (InsertUser u) = True"
| "is_store_write (InsertMessage m) = True"
| "is_store_write (LimiterSet userId ts) = False"

fun is_limiter_mutation :: "effect \<Rightarrow> bool" where
  "is_limiter_mutation (LimiterSet userId ts) = True"
| "is_limiter_mutation _ = False"

fun apply_effect :: "effect \<Rightarrow> state \<Rightarrow> state" where
  \<comment> \<open>what one logged mutation does to the tables and to the rate-limit store\<close>
  "apply_effect (InsertUser u) s = s\<lparr>users := users s @ [u]\<rparr>"
| "apply_effect (InsertMessage m) s = s\<lparr>messages := messages s @ [m]\<rparr>"
| "apply_effect (LimiterSet userId ts) s =
     s\<lparr>rateLimitStore := AList.update userId ts (rateLimitStore s)\<rparr>"

definition replay :: "effect list \<Rightarrow> state \<Rightarrow> state" where
  \<comment> \<open>the state after carrying out a list of mutations in order, and logging them\<close>
  "replay es s = (fold apply_effect es s)\<lparr>effects := effects s @ es\<rparr>"

definition effects_since :: "state \<Rightarrow> state \<Rightarrow> effect list" where
  \<comment> \<open>what was logged between an earlier state and a later one\<close>
  "effects_since s s' = drop (length (effects s)) (effects s')"

definition within_one_hour :: "int list \<Rightarrow> bool" where
  \<comment> \<open>any two of the times are less than one hour apart\<close>
  "within_one_hour ts = list_all (\<lambda>t. list_all (\<lambda>t'. t' - 3600000 < t) ts) ts"

subsection \<open>Sample data\<close>

definition ann :: user where
  "ann = \<lparr>user_id = ''u1'', user_name = ''Ann'', user_email = ''ann@example.com'',
          user_creationDate = ''2024-05-01T10:00:00.000Z''\<rparr>"

definition sample_state :: state where
  "sample_state = \<lparr>users = [ann], messages = [], rateLimitStore = [], effects = []\<rparr>"

definition full_state :: state where
  \<comment> \<open>Ann has ten recorded posts, at seconds 0 to 9\<close>
  "full_state = sample_state\<lparr>rateLimitStore :=
     [(''u1'', [0, 1000, 2000, 3000, 4000, 5000, 6000, 7000, 8000, 9000])]\<rparr>"

definition sample_env :: "int \<Rightarrow> string \<Rightarrow> env" where
  "sample_env t i = \<lparr>env_now = t, env_uuid = i, env_isoDate = ''2024-05-01T10:00:0'' @ i @ ''.000Z''\<rparr>"

definition ten_posts :: "(string \<times> env) list" where
  "ten_posts = map (\<lambda>(t, c). (''Spam'', sample_env t [c]))
     (zip [0, 1000, 2000, 3000, 4000, 5000, 6000, 7000, 8000, 9000] ''0123456789'')"

definition two_signups :: "(string \<times> string \<times> env) list" where
  "two_signups = [(''User One'', ''one@example.com'', sample_env 10 ''1''),
                  (''User Two'', ''two@example.com'', sample_env 20 ''2'')]"

definition bob :: user where
  "bob = \<lparr>user_id = ''u2'', user_name = ''Bob'', user_email = ''bob@example.com'',
          user_creationDate = ''2024-05-01T10:30:00.000Z''\<rparr>"

definition msg1 :: message where
  "msg1 = \<lparr>msg_id = ''m1'', msg_userId = ''u1'', msg_body = ''Message 1'',
           msg_creationDate = ''2024-05-01T11:00:00.000Z''\<rparr>"

definition msg2 :: message where
  "msg2 = \<lparr>msg_id = ''m2'', msg_userId = ''u1'', msg_body = ''Message 2'',
           msg_creationDate = ''2024-05-01T11:00:05.250Z''\<rparr>"

definition msg3 :: message where
  "msg3 = \<lparr>msg_id = ''m3'', msg_userId = ''u1'', msg_body = ''Message 3'',
           msg_creationDate = ''2024-05-01T11:02:00.000Z''\<rparr>"

definition bobs_msg :: message where
  "bobs_msg = \<lparr>msg_id = ''b1'', msg_userId = ''u2'', msg_body = ''Hello'',
           msg_creationDate = ''2024-05-01T11:00:01.000Z''\<rparr>"


definition thread_state :: state where
  "thread_state = \<lparr>users = [ann, bob], messages = [msg1, bobs_msg, msg2, msg3],
      rateLimitStore = [], effects = []\<rparr>"

section \<open>Properties\<close>

subsection \<open>Helper facts\<close>

lemma find_None_iff_ball: "find P xs = None \<longleftrightarrow> (\<forall>x\<in>set xs. \<not> P x)"
  by (induction xs) auto

lemma get_user_by_id_None: "get_user_by_id uid s = None \<longleftrightarrow> (\<forall>u\<in>set (users s). user_id u \<noteq> uid)"
  by (simp add: get_user_by_id_def find_None_iff_ball)

lemma get_user_by_email_None:
  "get_user_by_email e s = None \<longleftrightarrow> (\<forall>u\<in>set (users s). user_email u \<noteq> e)"
  by (simp add: get_user_by_email_def find_None_iff_ball)

lemma get_user_by_id_Some:
  "(\<exists>u. get_user_by_id uid s = Some u) \<longleftrightarrow> (\<exists>u\<in>set (users s). user_id u = uid)"
  using get_user_by_id_None[of uid s] by auto

lemma list_all_update:
  "list_all P al \<Longrightarrow> P (k, v) \<Longrightarrow> list_all P (AList.update k v al)"
  by (induction al) auto

subsection \<open>The four ways through postMessage\<close>

lemma postMessage_no_user:
  "get_user_by_id u s = None \<Longrightarrow>
   postMessage u b e s = (Inl (Error ''User not found. Cannot post message.''), s)"
  by (simp add: postMessage_def)

lemma postMessage_limited:
  "get_user_by_id u s = Some x \<Longrightarrow> 10 \<le> length (window_filtered u (env_now e) s) \<Longrightarrow>
   postMessage u b e s =
     (Inl (Error ''Rate limit exceeded. You can post a maximum of 10 messages per hour.''), s)"
  by (simp add: postMessage_def window_filtered_def Let_def)

lemma postMessage_collision:
  "get_user_by_id u s = Some x \<Longrightarrow> length (window_filtered u (env_now e) s) < 10 \<Longrightarrow>
   env_uuid e \<in> msg_id ` set (messages s) \<Longrightarrow>
   postMessage u b e s = (Inl (SqliteConstraint ''messages.id''), s)"
  by (simp add: postMessage_def window_filtered_def insert_message_def newMessage_def Let_def)

lemma postMessage_allowed:
  "get_user_by_id u s = Some x \<Longrightarrow> length (window_filtered u (env_now e) s) < 10 \<Longrightarrow>
   env_uuid e \<notin> msg_id ` set (messages s) \<Longrightarrow>
   postMessage u b e s =
     (Inr (newMessage u b e),
      s\<lparr>messages := messages s @ [newMessage u b e],
        rateLimitStore :=
          AList.update u (window_filtered u (env_now e) s @ [env_now e]) (rateLimitStore s),
        effects := effects s @ [InsertMessage (newMessage u b e),
                                LimiterSet u (window_filtered u (env_now e) s @ [env_now e])]\<rparr>)"
  by (simp add: postMessage_def window_filtered_def insert_message_def newMessage_def
      rateLimitStore_set_def Let_def)

subsection \<open>The rate-limit check\<close>

text \<open>
  Claim C1. In a call of \<open>postMessage\<close> for an existing user \<open>u\<close> at time \<open>now\<close>, the stored
  timestamps of \<open>u\<close> (none stored counts as empty) are filtered to those strictly greater
  than \<open>now\<close> minus one hour. With ten or more left, the call fails with the rate-limit
  message and the whole state, the rate-limit store included, is as before. With fewer
  than ten, and an identifier from \<^verbatim>\<open>uuidv4\<close> that no message row has yet, the call
  returns the new message, the store holds for \<open>u\<close> the filtered sequence followed by
  \<open>now\<close>, and the entries of all other users are as before.
\<close>

theorem postMessage_rate_limit_check:
  assumes "\<exists>x\<in>set (users s). user_id x = u"
  shows "(10 \<le> length (window_filtered u (env_now e) s) \<longrightarrow>
            postMessage u b e s =
              (Inl (Error ''Rate limit exceeded. You can post a maximum of 10 messages per hour.''), s))
       \<and> (length (window_filtered u (env_now e) s) < 10 \<and> env_uuid e \<notin> msg_id ` set (messages s) \<longrightarrow>
            fst (postMessage u b e s) = Inr (newMessage u b e)
          \<and> rateLimitStore (snd (postMessage u b e s)) =
              AList.update u (window_filtered u (env_now e) s @ [env_now e]) (rateLimitStore s)
          \<and> userTimestamps u (snd (postMessage u b e s)) =
              window_filtered u (env_now e) s @ [env_now e]
          \<and> (\<forall>v. v \<noteq> u \<longrightarrow> userTimestamps v (snd (postMessage u b e s)) = userTimestamps v s))"
proof -
  from assms obtain x where x: "get_user_by_id u s = Some x"
    using get_user_by_id_Some[of u s] by blast
  show ?thesis
    using postMessage_limited[OF x, of e b] postMessage_allowed[OF x, of e b]
    by (simp add: userTimestamps_def update_conv')
qed

theorem postMessage_rate_limit_check_witness:
  "postMessage ''u1'' ''late'' (sample_env 10000 ''a'') full_state =
     (Inl (Error ''Rate limit exceeded. You can post a maximum of 10 messages per hour.''), full_state)
   \<and> userTimestamps ''u1'' (snd (postMessage ''u1'' ''late'' (sample_env 3600000 ''a'') full_state))
        = [1000, 2000, 3000, 4000, 5000, 6000, 7000, 8000, 9000, 3600000]"
  using postMessage_rate_limit_check[of full_state "''u1''" "sample_env 10000 ''a''" "''late''"]
     postMessage_rate_limit_check[of full_state "''u1''" "sample_env 3600000 ''a''" "''late''"]
  by (simp add: full_state_def sample_state_def sample_env_def ann_def userTimestamps_def
      window_filtered_def)

subsection \<open>Failures leave the tables alone\<close>

text \<open>
  Claim C3. \<open>postMessage\<close> fails with the message "User not found. Cannot post message."
  exactly when no row of the users table has the given identifier, and then the state
  after the call is the state before it: neither table has a new row.
\<close>

theorem postMessage_not_found:
  "(fst (postMessage userId body e s) = Inl (Error ''User not found. Cannot post message.'')
      \<longleftrightarrow> (\<forall>u\<in>set (users s). user_id u \<noteq> userId))
   \<and> (fst (postMessage userId body e s) = Inl (Error ''User not found. Cannot post message.'')
      \<longrightarrow> snd (postMessage userId body e s) = s)"
  by (auto simp: postMessage_def Let_def insert_message_def get_user_by_id_None[symmetric]
      split: option.splits sum.splits if_splits)

theorem postMessage_not_found_witness:
  "fst (postMessage ''u2'' ''hi'' (sample_env 5 ''a'') sample_state) =
     Inl (Error ''User not found. Cannot post message.'')
   \<and> snd (postMessage ''u2'' ''hi'' (sample_env 5 ''a'') sample_state) = sample_state
   \<and> fst (postMessage ''u1'' ''hi'' (sample_env 5 ''a'') sample_state) \<noteq>
     Inl (Error ''User not found. Cannot post message.'')"
  using postMessage_not_found[of "''u2''" "''hi''" "sample_env 5 ''a''" sample_state]
    postMessage_not_found[of "''u1''" "''hi''" "sample_env 5 ''a''" sample_state]
  by (simp add: sample_state_def ann_def)

text \<open>
  Claim C5. When some row of the users table already has the email, \<open>createUser\<close> fails
  with the message "A user with this email already exists." and returns the state it
  was given, so no row is written and the number of users is the same.
\<close>

theorem createUser_duplicate_email:
  assumes "\<exists>u\<in>set (users s). user_email u = email"
  shows "createUser name email e s = (Inl (Error ''A user with this email already exists.''), s)"
proof -
  from assms have "get_user_by_email email s \<noteq> None"
    by (simp add: get_user_by_email_None)
  then show ?thesis
    by (auto simp: createUser_def)
qed

theorem createUser_duplicate_email_witness:
  "createUser ''Bob'' ''ann@example.com'' (sample_env 5 ''a'') sample_state =
     (Inl (Error ''A user with this email already exists.''), sample_state)
   \<and> length (listUsers (snd (createUser ''Bob'' ''ann@example.com'' (sample_env 5 ''a'') sample_state)))
       = length (listUsers sample_state)"
  using createUser_duplicate_email[of sample_state "''ann@example.com''" "''Bob''" "sample_env 5 ''a''"]
  by (simp add: sample_state_def ann_def)

subsection \<open>Writes of one call\<close>

text \<open>
  Claim C6. The state after a call of \<open>postMessage\<close> is the state before it with the
  mutations that the call logged carried out in order, and nothing else changed; so the
  log counts what the call did to the tables and to the rate-limit store. A call logs at
  most one store write and at most one rate-limiter mutation. When the user exists, fewer
  than ten timestamps are in the window and the new identifier is fresh, the call returns
  the new message and does exactly two things: it inserts that message as the last row of
  the messages table, the one store write, and then sets the entry of the user in the
  rate-limit store once; the users table is as before. When the user does not exist or
  the window is full, it does nothing and the state is unchanged.
\<close>

theorem postMessage_effects:
  "(effects (snd (postMessage u b e s)) = effects s @ effects_since s (snd (postMessage u b e s)))
   \<and> snd (postMessage u b e s) = replay (effects_since s (snd (postMessage u b e s))) s
   \<and> length (filter is_store_write (effects_since s (snd (postMessage u b e s)))) \<le> 1
   \<and> length (filter is_limiter_mutation (effects_since s (snd (postMessage u b e s)))) \<le> 1
   \<and> ((\<exists>x\<in>set (users s). user_id x = u) \<and> length (window_filtered u (env_now e) s) < 10
        \<and> env_uuid e \<notin> msg_id ` set (messages s) \<longrightarrow>
        effects_since s (snd (postMessage u b e s)) =
          [InsertMessage (newMessage u b e),
           LimiterSet u (window_filtered u (env_now e) s @ [env_now e])]
        \<and> length (filter is_store_write (effects_since s (snd (postMessage u b e s)))) = 1
        \<and> length (filter is_limiter_mutation (effects_since s (snd (postMessage u b e s)))) = 1
        \<and> fst (postMessage u b e s) = Inr (newMessage u b e)
        \<and> messages (snd (postMessage u b e s)) = messages s @ [newMessage u b e]
        \<and> users (snd (postMessage u b e s)) = users s
        \<and> rateLimitStore (snd (postMessage u b e s)) =
            AList.update u (window_filtered u (env_now e) s @ [env_now e]) (rateLimitStore s))
   \<and> ((\<forall>x\<in>set (users s). user_id x \<noteq> u) \<or> 10 \<le> length (window_filtered u (env_now e) s) \<longrightarrow>
        effects_since s (snd (postMessage u b e s)) = [] \<and> snd (postMessage u b e s) = s)"
proof (cases "get_user_by_id u s")
  case None
  then show ?thesis
    using get_user_by_id_None[of u s]
    by (simp add: postMessage_no_user effects_since_def replay_def)
next
  case (Some x)
  then have ex: "\<not> (\<forall>x\<in>set (users s). user_id x \<noteq> u)"
    using get_user_by_id_None[of u s] by simp
  consider (limited) "10 \<le> length (window_filtered u (env_now e) s)"
    | (collision) "length (window_filtered u (env_now e) s) < 10"
        "env_uuid e \<in> msg_id ` set (messages s)"
    | (allowed) "length (window_filtered u (env_now e) s) < 10"
        "env_uuid e \<notin> msg_id ` set (messages s)"
    by linarith
  then show ?thesis
  proof cases
    case limited
    then show ?thesis
      by (simp add: postMessage_limited[OF Some] effects_since_def replay_def)
  next
    case collision
    then show ?thesis using ex
      by (simp add: postMessage_collision[OF Some] effects_since_def replay_def)
  next
    case allowed
    then show ?thesis using ex
      by (simp add: postMessage_allowed[OF Some] effects_since_def replay_def)
  qed
qed

theorem postMessage_effects_witness:
  "effects_since sample_state (snd (postMessage ''u1'' ''hi'' (sample_env 5 ''a'') sample_state)) =
     [InsertMessage (newMessage ''u1'' ''hi'' (sample_env 5 ''a'')), LimiterSet ''u1'' [5]]
   \<and> messages (snd (postMessage ''u1'' ''hi'' (sample_env 5 ''a'') sample_state)) =
       [newMessage ''u1'' ''hi'' (sample_env 5 ''a'')]
   \<and> rateLimitStore (snd (postMessage ''u1'' ''hi'' (sample_env 5 ''a'') sample_state)) =
       [(''u1'', [5])]
   \<and> users (snd (postMessage ''u1'' ''hi'' (sample_env 5 ''a'') sample_state)) = [ann]
   \<and> effects_since sample_state (snd (postMessage ''u2'' ''hi'' (sample_env 5 ''a'') sample_state)) = []
   \<and> snd (postMessage ''u2'' ''hi'' (sample_env 5 ''a'') sample_state) = sample_state
   \<and> effects_since full_state (snd (postMessage ''u1'' ''hi'' (sample_env 10000 ''a'') full_state)) = []
   \<and> snd (postMessage ''u1'' ''hi'' (sample_env 10000 ''a'') full_state) = full_state"
  using postMessage_effects[of "''u1''" "''hi''" "sample_env 5 ''a''" sample_state]
    postMessage_effects[of "''u2''" "''hi''" "sample_env 5 ''a''" sample_state]
    postMessage_effects[of "''u1''" "''hi''" "sample_env 10000 ''a''" full_state]
  by (simp add: full_state_def sample_state_def sample_env_def ann_def userTimestamps_def
      window_filtered_def postMessage_def Let_def get_user_by_id_def insert_message_def
      newMessage_def rateLimitStore_set_def effects_since_def replay_def)

subsection \<open>At most ten timestamps per user\<close>

lemma postMessage_bounded:
  "rateLimitStore_bounded s \<Longrightarrow> rateLimitStore_bounded (snd (postMessage u b e s))"
proof (cases "get_user_by_id u s")
  case None
  assume "rateLimitStore_bounded s"
  with None show ?thesis by (simp add: postMessage_no_user)
next
  case (Some x)
  assume inv: "rateLimitStore_bounded s"
  consider (limited) "10 \<le> length (window_filtered u (env_now e) s)"
    | (collision) "length (window_filtered u (env_now e) s) < 10"
        "env_uuid e \<in> msg_id ` set (messages s)"
    | (allowed) "length (window_filtered u (env_now e) s) < 10"
        "env_uuid e \<notin> msg_id ` set (messages s)"
    by linarith
  then show ?thesis
  proof cases
    case limited
    then show ?thesis using inv by (simp add: postMessage_limited[OF Some])
  next
    case collision
    then show ?thesis using inv by (simp add: postMessage_collision[OF Some])
  next
    case allowed
    then show ?thesis using inv
      by (simp add: postMessage_allowed[OF Some] rateLimitStore_bounded_def list_all_update)
  qed
qed

lemma postMessage_Inr_bounded:
  assumes "fst (postMessage u b e s) = Inr m"
  shows "length (userTimestamps u (snd (postMessage u b e s))) \<le> 10"
proof (cases "get_user_by_id u s")
  case None
  with assms show ?thesis by (simp add: postMessage_no_user)
next
  case (Some x)
  consider (limited) "10 \<le> length (window_filtered u (env_now e) s)"
    | (collision) "length (window_filtered u (env_now e) s) < 10"
        "env_uuid e \<in> msg_id ` set (messages s)"
    | (allowed) "length (window_filtered u (env_now e) s) < 10"
        "env_uuid e \<notin> msg_id ` set (messages s)"
    by linarith
  then show ?thesis
  proof cases
    case limited
    then show ?thesis using assms by (simp add: postMessage_limited[OF Some])
  next
    case collision
    then show ?thesis using assms by (simp add: postMessage_collision[OF Some])
  next
    case allowed
    then show ?thesis
      by (simp add: postMessage_allowed[OF Some] userTimestamps_def update_conv')
  qed
qed

lemma createUser_bounded:
  "rateLimitStore_bounded s \<Longrightarrow> rateLimitStore_bounded (snd (createUser name email e s))"
  by (simp add: createUser_def insert_user_def rateLimitStore_bounded_def split: option.splits)

lemma serve_bounded: "rateLimitStore_bounded s \<Longrightarrow> rateLimitStore_bounded (serve r s)"
  by (cases r) (simp_all add: postMessage_bounded createUser_bounded)

lemma serve_all_bounded:
  "rateLimitStore_bounded s \<Longrightarrow> rateLimitStore_bounded (serve_all rs s)"
  unfolding serve_all_def by (induction rs arbitrary: s) (simp_all add: serve_bounded)

text \<open>
  Claim C9. If every sequence in the rate-limit store has at most ten timestamps before a
  call of \<open>postMessage\<close>, every sequence has at most ten after it. Whenever the call
  returns a message, the sequence stored for the posting user has at most ten timestamps,
  whatever was stored before. The store starts empty and only \<open>postMessage\<close> writes to it,
  so the bound holds after any sequence of requests served from the initial state.
\<close>

theorem postMessage_keeps_bound:
  "(rateLimitStore_bounded s \<longrightarrow> rateLimitStore_bounded (snd (postMessage u b e s)))
   \<and> (\<forall>m. fst (postMessage u b e s) = Inr m \<longrightarrow>
        length (userTimestamps u (snd (postMessage u b e s))) \<le> 10)
   \<and> rateLimitStore_bounded (snd (postMessage u b e (serve_all rs initial_state)))"
proof -
  have "rateLimitStore_bounded initial_state"
    by (simp add: rateLimitStore_bounded_def initial_state_def)
  then have "rateLimitStore_bounded (serve_all rs initial_state)"
    by (rule serve_all_bounded)
  then have "rateLimitStore_bounded (snd (postMessage u b e (serve_all rs initial_state)))"
    by (rule postMessage_bounded)
  then show ?thesis
    using postMessage_bounded[of s u b e] postMessage_Inr_bounded[of u b e s] by blast
qed

theorem postMessage_keeps_bound_witness:
  "rateLimitStore_bounded full_state
   \<and> rateLimitStore_bounded (snd (postMessage ''u1'' ''late'' (sample_env 3600000 ''a'') full_state))
   \<and> length (userTimestamps ''u1''
        (snd (postMessage ''u1'' ''late'' (sample_env 3600000 ''a'') full_state))) = 10"
  using postMessage_keeps_bound[of full_state "''u1''" "''late''" "sample_env 3600000 ''a''"]
  by (simp add: full_state_def sample_state_def sample_env_def ann_def userTimestamps_def
      window_filtered_def rateLimitStore_bounded_def postMessage_def Let_def get_user_by_id_def
      insert_message_def newMessage_def rateLimitStore_set_def)

subsection \<open>Ten posts, then the limit\<close>

lemma within_one_hour_iff:
  "within_one_hour ts \<longleftrightarrow> (\<forall>t\<in>set ts. \<forall>t'\<in>set ts. t' - 3600000 < t)"
  by (simp add: within_one_hour_def list_all_iff)

lemma postMessages_all_allowed:
  assumes "get_user_by_id u s = Some x"
    and "length (userTimestamps u s) + length cs \<le> 10"
    and "within_one_hour (userTimestamps u s @ map (\<lambda>(b, e). env_now e) cs)"
    and "distinct (map (\<lambda>(b, e). env_uuid e) cs)"
    and "\<forall>(b, e)\<in>set cs. env_uuid e \<notin> msg_id ` set (messages s)"
  shows "fst (postMessages u cs s) = map Inr (posted_messages u cs)
       \<and> users (snd (postMessages u cs s)) = users s
       \<and> messages (snd (postMessages u cs s)) = messages s @ posted_messages u cs
       \<and> userTimestamps u (snd (postMessages u cs s)) =
           userTimestamps u s @ map (\<lambda>(b, e). env_now e) cs"
  using assms
proof (induction cs arbitrary: s)
  case Nil
  then show ?case by (simp add: posted_messages_def)
next
  case (Cons c cs)
  obtain b e where c: "c = (b, e)" by (cases c)
  have "\<forall>t\<in>set (userTimestamps u s). env_now e - 3600000 < t"
    using Cons.prems(3) by (simp add: within_one_hour_iff c ball_Un)
  then have win: "window_filtered u (env_now e) s = userTimestamps u s"
    by (simp add: window_filtered_def)
  have lt: "length (window_filtered u (env_now e) s) < 10"
    using Cons.prems(2) win by simp
  have fresh: "env_uuid e \<notin> msg_id ` set (messages s)"
    using Cons.prems(5) c by auto
  let ?s1 = "snd (postMessage u b e s)"
  note step = postMessage_allowed[OF Cons.prems(1) lt fresh, of b]
  have ts1: "userTimestamps u ?s1 = userTimestamps u s @ [env_now e]"
    using step win by (simp add: userTimestamps_def update_conv')
  have u1: "get_user_by_id u ?s1 = Some x"
    using step Cons.prems(1) by (simp add: get_user_by_id_def)
  have m1: "messages ?s1 = messages s @ [newMessage u b e]"
    using step by simp
  have us1: "users ?s1 = users s"
    using step by simp
  have 2: "length (userTimestamps u ?s1) + length cs \<le> 10"
    using Cons.prems(2) ts1 by simp
  have 3: "within_one_hour (userTimestamps u ?s1 @ map (\<lambda>(b, e). env_now e) cs)"
    using Cons.prems(3) ts1 c by simp
  have 4: "distinct (map (\<lambda>(b, e). env_uuid e) cs)"
    using Cons.prems(4) by simp
  have 5: "\<forall>(b, e)\<in>set cs. env_uuid e \<notin> msg_id ` set (messages ?s1)"
    using Cons.prems(4,5) c m1 by (force simp: newMessage_def case_prod_beta)
  have unfold: "postMessages u (c # cs) s =
      (Inr (newMessage u b e) # fst (postMessages u cs ?s1), snd (postMessages u cs ?s1))"
    using step c by (simp add: split_beta)
  show ?case
    using Cons.IH[OF u1 2 3 4 5] unfold ts1 m1 us1 c by (simp add: posted_messages_def)
qed

text \<open>
  Claim C2. Let \<open>u\<close> be an existing user with no stored timestamps, and let ten calls of
  \<open>postMessage\<close> for \<open>u\<close> and an eleventh be served in a row, at times of which any two
  are less than one hour apart, the ten with pairwise distinct fresh identifiers. Then
  each of the ten returns its message. The eleventh fails with the message "Rate limit
  exceeded. You can post a maximum of 10 messages per hour." and leaves the state as it
  was, so \<open>listMessagesForUser\<close> afterwards returns the earlier messages of \<open>u\<close> followed by
  the ten, and nothing for the rejected attempt.
\<close>

theorem eleventh_post_rejected:
  assumes "\<exists>x\<in>set (users s). user_id x = u"
    and "userTimestamps u s = []"
    and "length cs = 10"
    and "within_one_hour (map (\<lambda>(b, e). env_now e) cs @ [env_now e11])"
    and "distinct (map (\<lambda>(b, e). env_uuid e) cs)"
    and "\<forall>(b, e)\<in>set cs. env_uuid e \<notin> msg_id ` set (messages s)"
  shows "fst (postMessages u cs s) = map Inr (posted_messages u cs)
       \<and> postMessage u b11 e11 (snd (postMessages u cs s)) =
           (Inl (Error ''Rate limit exceeded. You can post a maximum of 10 messages per hour.''),
            snd (postMessages u cs s))
       \<and> listMessagesForUser u (snd (postMessage u b11 e11 (snd (postMessages u cs s)))) =
           Inr (messages_of_user u s @ posted_messages u cs)"
proof -
  let ?s10 = "snd (postMessages u cs s)"
  from assms(1) obtain x where x: "get_user_by_id u s = Some x"
    using get_user_by_id_Some[of u s] by blast
  have 2: "length (userTimestamps u s) + length cs \<le> 10"
    using assms(2,3) by simp
  have 3: "within_one_hour (userTimestamps u s @ map (\<lambda>(b, e). env_now e) cs)"
    using assms(2,4) by (auto simp: within_one_hour_iff)
  note run = postMessages_all_allowed[OF x 2 3 assms(5,6)]
  have x10: "get_user_by_id u ?s10 = Some x"
    using run x by (simp add: get_user_by_id_def)
  have ts10: "userTimestamps u ?s10 = map (\<lambda>(b, e). env_now e) cs"
    using run assms(2) by simp
  have "\<forall>t\<in>set (userTimestamps u ?s10). env_now e11 - 3600000 < t"
    using assms(4) ts10 by (auto simp: within_one_hour_iff)
  then have "window_filtered u (env_now e11) ?s10 = userTimestamps u ?s10"
    by (simp add: window_filtered_def)
  then have full: "10 \<le> length (window_filtered u (env_now e11) ?s10)"
    using ts10 assms(3) by simp
  note reject = postMessage_limited[OF x10 full, of b11]
  have "messages_of_user u ?s10 = messages_of_user u s @ posted_messages u cs"
    using run by (simp add: messages_of_user_def posted_messages_def newMessage_def split_beta
        filter_map comp_def)
  then have "listMessagesForUser u ?s10 = Inr (messages_of_user u s @ posted_messages u cs)"
    using x10 by (simp add: listMessagesForUser_def)
  with run reject show ?thesis by simp
qed

theorem eleventh_post_rejected_witness:
  "fst (postMessages ''u1'' ten_posts sample_state) = map Inr (posted_messages ''u1'' ten_posts)
   \<and> postMessage ''u1'' ''Spam'' (sample_env 10000 ''a'') (snd (postMessages ''u1'' ten_posts sample_state)) =
       (Inl (Error ''Rate limit exceeded. You can post a maximum of 10 messages per hour.''),
        snd (postMessages ''u1'' ten_posts sample_state))
   \<and> listMessagesForUser ''u1''
        (snd (postMessage ''u1'' ''Spam'' (sample_env 10000 ''a'') (snd (postMessages ''u1'' ten_posts sample_state)))) =
       Inr (posted_messages ''u1'' ten_posts)"
proof -
  have 1: "\<exists>x\<in>set (users sample_state). user_id x = ''u1''"
    by (simp add: sample_state_def ann_def)
  have 2: "userTimestamps ''u1'' sample_state = []"
    by (simp add: userTimestamps_def sample_state_def)
  have 3: "length ten_posts = 10"
    by (simp add: ten_posts_def)
  have 4: "within_one_hour (map (\<lambda>(b, e). env_now e) ten_posts @ [env_now (sample_env 10000 ''a'')])"
    by (simp add: ten_posts_def sample_env_def within_one_hour_def)
  have 5: "distinct (map (\<lambda>(b, e). env_uuid e) ten_posts)"
    by (simp add: ten_posts_def sample_env_def)
  have 6: "\<forall>(b, e)\<in>set ten_posts. env_uuid e \<notin> msg_id ` set (messages sample_state)"
    by (simp add: sample_state_def)
  have 7: "messages_of_user ''u1'' sample_state = []"
    by (simp add: messages_of_user_def sample_state_def)
  from eleventh_post_rejected[OF 1 2 3 4 5 6, of "''Spam''", unfolded 7 append_Nil]
  show ?thesis .
qed

subsection \<open>Listing users and messages\<close>

lemma createUser_fresh:
  assumes "email \<notin> user_email ` set (users s)" and "env_uuid e \<notin> user_id ` set (users s)"
  shows "createUser name email e s =
     (Inr (newUser name email e),
      s\<lparr>users := users s @ [newUser name email e],
        effects := effects s @ [InsertUser (newUser name email e)]\<rparr>)"
proof -
  from assms(1) have "get_user_by_email email s = None"
    by (auto simp: get_user_by_email_None)
  with assms show ?thesis
    by (simp add: createUser_def insert_user_def newUser_def)
qed

lemma createUsers_fresh:
  assumes "distinct (map (\<lambda>(name, email, e). email) cs)"
    and "\<forall>(name, email, e)\<in>set cs. email \<notin> user_email ` set (users s)"
    and "distinct (map (\<lambda>(name, email, e). env_uuid e) cs)"
    and "\<forall>(name, email, e)\<in>set cs. env_uuid e \<notin> user_id ` set (users s)"
  shows "createUsers cs s =
     (map Inr (created_users cs),
      s\<lparr>users := users s @ created_users cs,
        effects := effects s @ map InsertUser (created_users cs)\<rparr>)"
  using assms
proof (induction cs arbitrary: s)
  case Nil
  then show ?case by (simp add: created_users_def)
next
  case (Cons c cs)
  obtain name email e where c: "c = (name, email, e)" by (cases c)
  let ?s1 = "s\<lparr>users := users s @ [newUser name email e],
        effects := effects s @ [InsertUser (newUser name email e)]\<rparr>"
  have step: "createUser name email e s = (Inr (newUser name email e), ?s1)"
    using Cons.prems(2,4) c by (intro createUser_fresh) auto
  have 1: "distinct (map (\<lambda>(name, email, e). email) cs)"
    and 3: "distinct (map (\<lambda>(name, email, e). env_uuid e) cs)"
    using Cons.prems(1,3) by simp_all
  have 2: "\<forall>(name, email, e)\<in>set cs. email \<notin> user_email ` set (users ?s1)"
    using Cons.prems(1,2) c by (force simp: newUser_def case_prod_beta)
  have 4: "\<forall>(name, email, e)\<in>set cs. env_uuid e \<notin> user_id ` set (users ?s1)"
    using Cons.prems(3,4) c by (force simp: newUser_def case_prod_beta)
  show ?case
    using Cons.IH[OF 1 2 3 4] step c by (simp add: created_users_def)
qed

text \<open>
  Claim C7. When \<open>N\<close> calls of \<open>createUser\<close> are served in a row with pairwise distinct
  emails that no user has yet, and pairwise distinct fresh identifiers, every call
  returns its user and \<open>listUsers\<close> afterwards returns the earlier users followed by the
  \<open>N\<close> new ones in the order of their creation; from an empty table these are exactly
  the \<open>N\<close> users.
\<close>

theorem listUsers_after_createUsers:
  assumes "distinct (map (\<lambda>(name, email, e). email) cs)"
    and "\<forall>(name, email, e)\<in>set cs. email \<notin> user_email ` set (users s)"
    and "distinct (map (\<lambda>(name, email, e). env_uuid e) cs)"
    and "\<forall>(name, email, e)\<in>set cs. env_uuid e \<notin> user_id ` set (users s)"
  shows "fst (createUsers cs s) = map Inr (created_users cs)
       \<and> listUsers (snd (createUsers cs s)) = listUsers s @ created_users cs
       \<and> (listUsers s = [] \<longrightarrow>
            listUsers (snd (createUsers cs s)) = created_users cs
          \<and> length (listUsers (snd (createUsers cs s))) = length cs)"
  using createUsers_fresh[OF assms] by (simp add: listUsers_def created_users_def)

theorem listUsers_after_createUsers_witness:
  "listUsers (snd (createUsers two_signups initial_state)) =
     [newUser ''User One'' ''one@example.com'' (sample_env 10 ''1''),
      newUser ''User Two'' ''two@example.com'' (sample_env 20 ''2'')]
   \<and> map user_name (listUsers (snd (createUsers two_signups initial_state))) = [''User One'', ''User Two'']"
proof -
  have 1: "distinct (map (\<lambda>(name, email, e). email) two_signups)"
    by (simp add: two_signups_def)
  have 2: "\<forall>(name, email, e)\<in>set two_signups. email \<notin> user_email ` set (users initial_state)"
    by (simp add: two_signups_def initial_state_def)
  have 3: "distinct (map (\<lambda>(name, email, e). env_uuid e) two_signups)"
    by (simp add: two_signups_def sample_env_def)
  have 4: "\<forall>(name, email, e)\<in>set two_signups. env_uuid e \<notin> user_id ` set (users initial_state)"
    by (simp add: two_signups_def initial_state_def)
  from listUsers_after_createUsers[OF 1 2 3 4] show ?thesis
    by (simp add: listUsers_def initial_state_def created_users_def two_signups_def newUser_def)
qed

text \<open>
  Claim C8. \<open>listMessagesForUser\<close> fails with the message "User not found." when no row
  of the users table has the identifier. Otherwise it returns the rows of the messages
  table whose \<open>userId\<close> is the identifier: each of them as often as the table has it, no
  other row, in table order.
\<close>

theorem listMessagesForUser_result:
  "((\<forall>u\<in>set (users s). user_id u \<noteq> userId) \<longrightarrow>
       listMessagesForUser userId s = Inl (Error ''User not found.''))
   \<and> ((\<exists>u\<in>set (users s). user_id u = userId) \<longrightarrow>
       (\<exists>ms. listMessagesForUser userId s = Inr ms
          \<and> set ms = {m \<in> set (messages s). msg_userId m = userId}
          \<and> (\<forall>m. count_list ms m = (if msg_userId m = userId then count_list (messages s) m else 0))
          \<and> ms = filter (\<lambda>m. msg_userId m = userId) (messages s)))"
proof (cases "get_user_by_id userId s")
  case None
  then show ?thesis
    using get_user_by_id_None[of userId s] by (simp add: listMessagesForUser_def)
next
  case (Some x)
  have cnt: "count_list (filter P xs) m = (if P m then count_list xs m else 0)" for P and xs :: "message list" and m
    by (induction xs) auto
  from Some show ?thesis
    using get_user_by_id_None[of userId s]
    by (auto simp: listMessagesForUser_def messages_of_user_def cnt)
qed

theorem listMessagesForUser_result_witness:
  "listMessagesForUser ''u1'' thread_state = Inr [msg1, msg2, msg3]
   \<and> listMessagesForUser ''u9'' thread_state = Inl (Error ''User not found.'')"
  using listMessagesForUser_result[of thread_state "''u1''"] listMessagesForUser_result[of thread_state "''u9''"]
  by (simp add: thread_state_def msg1_def msg2_def msg3_def bobs_msg_def ann_def bob_def)

subsection \<open>Previous and next message\<close>


lemma findIndexFrom_present:
  "\<exists>x\<in>set xs. p x \<Longrightarrow>
   \<exists>k<length xs. findIndexFrom p xs i = i + int k \<and> p (xs ! k) \<and> (\<forall>j<k. \<not> p (xs ! j))"
proof (induction xs arbitrary: i)
  case Nil
  then show ?case by simp
next
  case (Cons x xs)
  show ?case
  proof (cases "p x")
    case True
    then show ?thesis by auto
  next
    case False
    with Cons.prems have "\<exists>x\<in>set xs. p x" by simp
    from Cons.IH[OF this, of "i + 1"] obtain k where
      k: "k < length xs" "findIndexFrom p xs (i + 1) = i + 1 + int k" "p (xs ! k)"
         "\<forall>j<k. \<not> p (xs ! j)"
      by blast
    have "\<forall>j<Suc k. \<not> p ((x # xs) ! j)"
      using False k(4) by (auto simp: nth_Cons split: nat.splits)
    with k False show ?thesis
      by (intro exI[of _ "Suc k"]) auto
  qed
qed


lemma findIndex_present:
  "\<exists>x\<in>set xs. p x \<Longrightarrow>
   \<exists>k<length xs. findIndex p xs = int k \<and> p (xs ! k) \<and> (\<forall>j<k. \<not> p (xs ! j))"
  using findIndexFrom_present[of xs p 0] by (simp add: findIndex_def)

lemma set_messages_of_user_by_date:
  "set (messages_of_user_by_date uid s) = {x \<in> set (messages s). msg_userId x = uid}"
  by (auto simp: messages_of_user_by_date_def messages_of_user_def)

lemma sorted_messages_of_user_by_date:
  "sorted (map msg_creationDate (messages_of_user_by_date uid s))"
  by (simp add: messages_of_user_by_date_def)

lemma thread_of_ann: "messages_of_user_by_date ''u1'' thread_state = [msg1, msg2, msg3]"
  by (simp add: messages_of_user_by_date_def messages_of_user_def thread_state_def msg1_def msg2_def msg3_def bobs_msg_def
       less_eq_char_def less_char_def)

text \<open>
  Claim C4. Let \<open>m\<close> be a row of the messages table and \<open>ms\<close> the messages of its user in
  ascending order of the creation date. \<open>findIndex\<close> finds a position \<open>k\<close> in \<open>ms\<close>, the
  first whose identifier is that of \<open>m\<close>, and it is the position of \<open>m\<close> itself when
  identifiers are unique, as the primary key makes them. \<open>previousPostedMessage\<close> is the
  element at \<open>k - 1\<close> if \<open>k > 0\<close> and absent otherwise; \<open>nextPostedMessage\<close> is the element
  at \<open>k + 1\<close> if \<open>k\<close> is not the last position and absent otherwise. If \<open>ms\<close> has one
  element, both are absent. Only that \<open>ms\<close> is sorted and holds the user's messages is
  used, not how equal dates are ordered.
\<close>

theorem posted_message_neighbours:
  assumes "m \<in> set (messages s)" and "ms = messages_of_user_by_date (msg_userId m) s"
  shows "sorted (map msg_creationDate ms)
       \<and> set ms = {x \<in> set (messages s). msg_userId x = msg_userId m}
       \<and> (\<exists>k<length ms.
             findIndex (\<lambda>msg. msg_id msg = msg_id m) ms = int k
           \<and> msg_id (ms ! k) = msg_id m \<and> (\<forall>j<k. msg_id (ms ! j) \<noteq> msg_id m)
           \<and> (distinct (map msg_id (messages s)) \<longrightarrow> ms ! k = m)
           \<and> previousPostedMessage m s = (if 0 < k then Some (ms ! (k - 1)) else None)
           \<and> nextPostedMessage m s = (if k + 1 < length ms then Some (ms ! (k + 1)) else None))
       \<and> (length ms = 1 \<longrightarrow> previousPostedMessage m s = None \<and> nextPostedMessage m s = None)"
proof -
  have set_ms: "set ms = {x \<in> set (messages s). msg_userId x = msg_userId m}"
    using assms(2) by (simp add: set_messages_of_user_by_date)
  have srt: "sorted (map msg_creationDate ms)"
    using assms(2) by (simp add: sorted_messages_of_user_by_date)
  from assms(1) set_ms have "m \<in> set ms" by simp
  then have "\<exists>x\<in>set ms. msg_id x = msg_id m" by blast
  from findIndex_present[of ms "\<lambda>msg. msg_id msg = msg_id m", OF this]
  obtain k where k: "k < length ms" "findIndex (\<lambda>msg. msg_id msg = msg_id m) ms = int k"
      "msg_id (ms ! k) = msg_id m" "\<forall>j<k. msg_id (ms ! j) \<noteq> msg_id m"
    by blast
  have same: "ms ! k = m" if d: "distinct (map msg_id (messages s))"
  proof -
    from d have "inj_on msg_id (set (messages s))" by (simp add: distinct_map)
    moreover from k(1) set_ms have "ms ! k \<in> set (messages s)"
      using nth_mem[of k ms] by simp
    ultimately show ?thesis using assms(1) k(3) by (auto dest: inj_onD)
  qed
  have prev: "previousPostedMessage m s = (if 0 < k then Some (ms ! (k - 1)) else None)"
    using k(1,2) assms(2)[symmetric]
    by (auto simp: previousPostedMessage_def Let_def js_index_def nat_diff_distrib')
  have nxt: "nextPostedMessage m s = (if k + 1 < length ms then Some (ms ! (k + 1)) else None)"
    using k(1,2) assms(2)[symmetric]
    by (auto simp: nextPostedMessage_def Let_def js_index_def nat_add_distrib)
  have single: "previousPostedMessage m s = None \<and> nextPostedMessage m s = None" if "length ms = 1"
    using that k(1) prev nxt by simp
  from srt set_ms k same prev nxt single show ?thesis by blast
qed

theorem posted_message_neighbours_witness:
  "previousPostedMessage msg2 thread_state = Some msg1
   \<and> nextPostedMessage msg2 thread_state = Some msg3"
proof -
  have in_store: "msg2 \<in> set (messages thread_state)"
    by (simp add: thread_state_def)
  have thread: "[msg1, msg2, msg3] = messages_of_user_by_date (msg_userId msg2) thread_state"
    by (simp add: thread_of_ann msg2_def)
  from posted_message_neighbours[OF in_store thread]
  obtain k where k: "k < length [msg1, msg2, msg3]"
    "msg_id ([msg1, msg2, msg3] ! k) = msg_id msg2"
    "previousPostedMessage msg2 thread_state =
       (if 0 < k then Some ([msg1, msg2, msg3] ! (k - 1)) else None)"
    "nextPostedMessage msg2 thread_state =
       (if k + 1 < length [msg1, msg2, msg3] then Some ([msg1, msg2, msg3] ! (k + 1)) else None)"
    by blast
  from k(1,2) have "k = 1"
    by (auto simp: less_Suc_eq nth_Cons msg1_def msg2_def msg3_def split: nat.splits)
  with k(3,4) show ?thesis by simp
qed



end
